theory Spec2Isabelle
  imports Complex_Main "HOL-Library.Product_Lexorder" "HOL-Library.Sublist"
begin

section \<open>CheapStop search pipeline (src/main.py)\<close>

text \<open>
  Conventions of the embedding.
  \<^item> A Python \<open>str\<close> is the list of its Unicode code points (\<open>pystr\<close>), so that \<open>len\<close>
    is \<open>length\<close> and \<open>+\<close> on strings is \<open>@\<close>.
  \<^item> A Python \<open>float\<close> is modelled by the real number it denotes and float arithmetic by
    exact real arithmetic: rounding error and NaN are not modelled. Overflow is modelled
    where the code turns it into an exception: \<open>int(x)\<close> raises \<open>OverflowError\<close> on an
    infinity. The library functions \<open>math.sqrt\<close> and \<open>math.atan2\<close> keep their domain
    behaviour (\<open>math.sqrt\<close> raises \<open>ValueError\<close> below zero).
  \<^item> The built-in \<open>hash\<close> on strings depends on the per-process hash seed; it is the
    parameter \<open>h\<close> of every function that calls it.
  \<^item> Exceptions are values: a function that can raise returns \<open>error + 'a\<close>.
\<close>

type_synonym pystr = "nat list"

definition lit :: "string \<Rightarrow> pystr" where
  "lit s = map of_char s"

datatype error = HTTPException int pystr | ValueError | OverflowError

subsection \<open>Library functions used by the source\<close>

text \<open>\<open>str.split(',')\<close>: every separator ends a part; the result is never empty.\<close>

fun split :: "nat \<Rightarrow> pystr \<Rightarrow> pystr list" where
  "split sep [] = [[]]"
| "split sep (c # cs) =
     (if c = sep then [] # split sep cs
      else (case split sep cs of [] \<Rightarrow> [[c]] | p # ps \<Rightarrow> (c # p) # ps))"

text \<open>The code points for which \<open>str.isspace\<close> holds; \<open>str.strip()\<close> removes them at both ends.\<close>

definition isspace :: "nat \<Rightarrow> bool" where
  "isspace c = (c \<in> set ([9, 10, 11, 12, 13, 28, 29, 30, 31, 32, 133, 160, 5760]
                  @ [8192 ..< 8203] @ [8232, 8233, 8239, 8287, 12288]))"

definition strip :: "pystr \<Rightarrow> pystr" where
  "strip s = rev (dropWhile isspace (rev (dropWhile isspace s)))"

text \<open>\<open>str(n)\<close> for an integer: its decimal digits, with a minus sign below zero.\<close>

fun digits :: "nat \<Rightarrow> pystr" where
  "digits n = (if n < 10 then [48 + n] else digits (n div 10) @ [48 + n mod 10])"

declare digits.simps [simp del]

definition str_int :: "int \<Rightarrow> pystr" where
  "str_int i = (if i < 0 then 45 # digits (nat (- i)) else digits (nat i))"

text \<open>
  \<open>int(x)\<close> on a float truncates toward zero, and raises \<open>OverflowError\<close> when \<open>x\<close> is an
  infinity. A double is infinite when the value it rounds has magnitude
  \<open>2 ^ 1024 - 2 ^ 970\<close> or more (the largest finite double plus half a unit in its last
  place).
\<close>

definition py_int :: "real \<Rightarrow> error + int" where
  "py_int x =
     (if 2 ^ 1024 - 2 ^ 970 \<le> \<bar>x\<bar> then Inl OverflowError
      else Inr (if 0 \<le> x then \<lfloor>x\<rfloor> else \<lceil>x\<rceil>))"

text \<open>\<open>round(x, n)\<close> on a float: to the nearest multiple of \<open>10 ^ - n\<close>, ties to even.\<close>

definition round_half_even :: "real \<Rightarrow> int" where
  "round_half_even y =
     (let f = \<lfloor>y\<rfloor>; d = y - of_int f
      in if d < 1 / 2 then f else if 1 / 2 < d then f + 1 else if even f then f else f + 1)"

definition py_round :: "real \<Rightarrow> nat \<Rightarrow> real" where
  "py_round x n = of_int (round_half_even (x * 10 ^ n)) / 10 ^ n"

definition radians :: "real \<Rightarrow> real" where
  "radians x = x * (pi / 180)"

definition py_sqrt :: "real \<Rightarrow> error + real" where
  "py_sqrt x = (if x < 0 then Inl ValueError else Inr (sqrt x))"

definition atan2 :: "real \<Rightarrow> real \<Rightarrow> real" where
  "atan2 y x =
     (if 0 < x then arctan (y / x)
      else if x < 0 then (if 0 \<le> y then arctan (y / x) + pi else arctan (y / x) - pi)
      else if 0 < y then pi / 2
      else if y < 0 then - (pi / 2)
      else 0)"

subsection \<open>Utilities\<close>

text \<open>\<open>haversine\<close> (lines 22-32): distance in miles between two lat/lng points.\<close>

definition haversine :: "real \<Rightarrow> real \<Rightarrow> real \<Rightarrow> real \<Rightarrow> error + real" where
  "haversine lat1 lon1 lat2 lon2 =
     (let R = 3958.8;
          phi1 = radians lat1;
          phi2 = radians lat2;
          dphi = radians (lat2 - lat1);
          dlambda = radians (lon2 - lon1);
          a = (sin (dphi / 2))\<^sup>2 + cos phi1 * cos phi2 * (sin (dlambda / 2))\<^sup>2
      in case py_sqrt a of
           Inl e \<Rightarrow> Inl e
         | Inr sa \<Rightarrow>
             (case py_sqrt (1 - a) of
                Inl e \<Rightarrow> Inl e
              | Inr sb \<Rightarrow> let c = 2 * atan2 sa sb in Inr (R * c)))"

text \<open>
  \<open>BASE_CHAINS\<close> (lines 36-40). Every entry is a dict literal with exactly the keys
  \<open>"id"\<close> and \<open>"name"\<close>, and the code subscripts it with these two keys only, so an entry
  is a record with the fields \<open>chain_id\<close> and \<open>chain_name\<close>.
\<close>

record Chain =
  chain_id :: pystr
  chain_name :: pystr

definition BASE_CHAINS :: "Chain list" where
  "BASE_CHAINS =
     [\<lparr>chain_id = lit ''walmart'', chain_name = lit ''Walmart Supercenter''\<rparr>,
      \<lparr>chain_id = lit ''target'', chain_name = lit ''Target''\<rparr>,
      \<lparr>chain_id = lit ''kroger'', chain_name = lit ''Kroger''\<rparr>]"

subsection \<open>Models\<close>

text \<open>
  The pydantic models (lines 46-70). \<open>radiusMiles\<close> is \<open>Optional[float]\<close>: \<open>None\<close> or a
  float. The fields \<open>lat\<close>, \<open>lng\<close> of \<open>StoreResult\<close> and \<open>query\<close> of \<open>SearchResponse\<close>
  carry a prefix, since a field name is a constant of the theory.
\<close>

record SearchRequest =
  query :: pystr
  lat :: real
  lng :: real
  radiusMiles :: "real option"

text \<open>Line 50: the value of \<open>radiusMiles\<close> in a request that does not give the field.\<close>

definition default_radiusMiles :: "real option" where
  "default_radiusMiles = Some 5.0"

record Item =
  name :: pystr
  price :: real
  quantity :: int

record StoreResult =
  storeId :: pystr
  storeName :: pystr
  distanceMiles :: real
  store_lat :: real
  store_lng :: real
  totalPrice :: real
  items :: "Item list"

record SearchResponse =
  resp_query :: pystr
  mode :: pystr
  totalStores :: nat
  stores :: "StoreResult list"

subsection \<open>Routes: \<open>search_stores\<close> (lines 81-134)\<close>

text \<open>Line 83: the parsed item list.\<close>

definition parse_items :: "pystr \<Rightarrow> pystr list" where
  "parse_items q = [strip part. part \<leftarrow> split 44 q, strip part \<noteq> []]"

text \<open>Lines 89-93.\<close>

definition offsets :: "(real \<times> real) list" where
  "offsets = [(0.010, 0.012), (- 0.008, 0.009), (0.006, - 0.010)]"

text \<open>
  Line 103: the test \<open>payload.radiusMiles and dist > payload.radiusMiles\<close>. \<open>None\<close> and
  \<open>0.0\<close> are falsy and end the conjunction before the comparison.
\<close>

definition outside_radius :: "real option \<Rightarrow> real \<Rightarrow> bool" where
  "outside_radius r dst = (case r of None \<Rightarrow> False | Some rv \<Rightarrow> rv \<noteq> 0 \<and> rv < dst)"

text \<open>Lines 110 and 111: the pseudo-price of one item at one chain.\<close>

definition base_price :: "pystr \<Rightarrow> real" where
  "base_price nm = max 1.0 (of_nat ((length nm mod 7) + 1))"

definition jitter :: "(pystr \<Rightarrow> int) \<Rightarrow> pystr \<Rightarrow> pystr \<Rightarrow> real" where
  "jitter h nm cid = of_int (h (nm @ cid) mod 100) / 250.0"

definition item_price :: "(pystr \<Rightarrow> int) \<Rightarrow> pystr \<Rightarrow> pystr \<Rightarrow> real" where
  "item_price h nm cid = py_round (base_price nm * 0.99 + jitter h nm cid) 2"

text \<open>Lines 107-113: the inner loop, with its two accumulators.\<close>

fun enrich :: "(pystr \<Rightarrow> int) \<Rightarrow> pystr \<Rightarrow> pystr list \<Rightarrow> Item list \<times> real \<Rightarrow> Item list \<times> real" where
  "enrich h cid [] (enriched, tot) = (enriched, tot)"
| "enrich h cid (nm # rest) (enriched, tot) =
     (let pr = item_price h nm cid
      in enrich h cid rest (enriched @ [\<lparr>name = nm, price = pr, quantity = 1\<rparr>], tot + pr))"

text \<open>Lines 98-100: the store a chain is given near the user, and its distance.\<close>

fun candidate :: "SearchRequest \<Rightarrow> Chain \<times> real \<times> real \<Rightarrow> error + (real \<times> real \<times> real)" where
  "candidate payload (chain, dlat, dlng) =
     (let s_lat = lat payload + dlat;
          s_lng = lng payload + dlng
      in (case haversine (lat payload) (lng payload) s_lat s_lng of
            Inl e \<Rightarrow> Inl e
          | Inr dst \<Rightarrow> Inr (s_lat, s_lng, dst)))"

text \<open>Line 117: the store id; either \<open>int\<close> can raise, the one on the latitude first.\<close>

fun store_id :: "Chain \<Rightarrow> real \<times> real \<times> real \<Rightarrow> error + pystr" where
  "store_id chain (s_lat, s_lng, dst) =
     (case py_int (s_lat * 1000) of
        Inl e \<Rightarrow> Inl e
      | Inr i \<Rightarrow>
          (case py_int (s_lng * 1000) of
             Inl e \<Rightarrow> Inl e
           | Inr j \<Rightarrow> Inr (chain_id chain @ lit ''-'' @ str_int \<bar>i\<bar> @ lit ''-'' @ str_int \<bar>j\<bar>)))"

text \<open>
  Lines 115-125: the result appended for a store inside the radius; \<open>sid\<close> is the value of
  the expression on line 117.
\<close>

fun store_result ::
  "(pystr \<Rightarrow> int) \<Rightarrow> pystr list \<Rightarrow> Chain \<Rightarrow> real \<times> real \<times> real \<Rightarrow> pystr \<Rightarrow> StoreResult" where
  "store_result h its chain (s_lat, s_lng, dst) sid =
     (let (enriched, tot) = enrich h (chain_id chain) its ([], 0.0)
      in \<lparr>storeId = sid,
          storeName = chain_name chain,
          distanceMiles = py_round dst 2,
          store_lat = py_round s_lat 6,
          store_lng = py_round s_lng 6,
          totalPrice = py_round tot 2,
          items = enriched\<rparr>)"

text \<open>
  Lines 97-125: the loop over \<open>zip(BASE_CHAINS, offsets)\<close>; the list \<open>acc\<close> is the
  variable \<open>stores\<close>. A store outside the radius is skipped (\<open>continue\<close>); an exception
  ends the loop.
\<close>

fun chain_loop ::
  "(pystr \<Rightarrow> int) \<Rightarrow> SearchRequest \<Rightarrow> pystr list \<Rightarrow> (Chain \<times> real \<times> real) list
     \<Rightarrow> StoreResult list \<Rightarrow> error + StoreResult list" where
  "chain_loop h payload its [] acc = Inr acc"
| "chain_loop h payload its (co # rest) acc =
     (case candidate payload co of
        Inl e \<Rightarrow> Inl e
      | Inr c \<Rightarrow>
          if outside_radius (radiusMiles payload) (snd (snd c))
          then chain_loop h payload its rest acc
          else (case store_id (fst co) c of
                  Inl e \<Rightarrow> Inl e
                | Inr sid \<Rightarrow>
                    chain_loop h payload its rest (acc @ [store_result h its (fst co) c sid])))"

definition sort_stores :: "StoreResult list \<Rightarrow> StoreResult list" where
  "sort_stores ss = sort_key (\<lambda>s. (totalPrice s, distanceMiles s)) ss"

definition search_stores :: "(pystr \<Rightarrow> int) \<Rightarrow> SearchRequest \<Rightarrow> error + SearchResponse" where
  "search_stores h payload =
     (let its = parse_items (query payload)
      in if its = []
         then Inl (HTTPException 400 (lit ''Please provide at least one item in the query.''))
         else case chain_loop h payload its (zip BASE_CHAINS offsets) [] of
                Inl e \<Rightarrow> Inl e
              | Inr ss \<Rightarrow>
                  let sorted_ss = sort_stores ss
                  in Inr \<lparr>resp_query = query payload,
                          mode = lit ''live'',
                          totalStores = length sorted_ss,
                          stores = sorted_ss\<rparr>)"

section \<open>Auxiliary notions for the proofs\<close>

text \<open>The quantity \<open>a\<close> of line 30, as a function of the four arguments of \<open>haversine\<close>.\<close>

definition hav_a :: "real \<Rightarrow> real \<Rightarrow> real \<Rightarrow> real \<Rightarrow> real" where
  "hav_a lat1 lon1 lat2 lon2 =
     (sin (radians (lat2 - lat1) / 2))\<^sup>2
       + cos (radians lat1) * cos (radians lat2) * (sin (radians (lon2 - lon1) / 2))\<^sup>2"

section \<open>The geo-distance function\<close>

text \<open>
  The argument of the two square roots always lies between 0 and 1, so \<open>math.sqrt\<close>
  never raises inside \<open>haversine\<close>: with \<open>p = cos x * cos y\<close> and \<open>q = sin x * sin y\<close>
  the first summand is \<open>(1 - (p + q)) / 2\<close>, and both \<open>p + q\<close> and \<open>p - q\<close> are cosines.
\<close>

lemma radians_diff: "radians (b - a) = radians b - radians a"
  by (simp add: radians_def left_diff_distrib)

lemma hav_core_bounds:
  fixes x y t :: real
  assumes t: "0 \<le> t" "t \<le> 1"
  shows "0 \<le> (sin ((y - x) / 2))\<^sup>2 + cos x * cos y * t"
    and "(sin ((y - x) / 2))\<^sup>2 + cos x * cos y * t \<le> 1"
proof -
  define p where "p = cos x * cos y"
  define q where "q = sin x * sin y"
  have cd: "cos (y - x) = p + q"
    by (simp add: cos_diff p_def q_def mult.commute)
  have ca: "cos (y + x) = p - q"
    by (simp add: cos_add p_def q_def mult.commute)
  have s: "(sin ((y - x) / 2))\<^sup>2 = (1 - (p + q)) / 2"
  proof -
    have "2 * ((y - x) / 2) = y - x" by simp
    then have "cos (y - x) = 1 - 2 * (sin ((y - x) / 2))\<^sup>2"
      using cos_double_sin [of "(y - x) / 2"] by (simp only:)
    then show ?thesis unfolding cd by simp
  qed
  have b1: "p + q \<le> 1" "- 1 \<le> p + q"
    using cos_le_one [of "y - x"] cos_ge_minus_one [of "y - x"] unfolding cd by simp_all
  have b2: "p - q \<le> 1" "- 1 \<le> p - q"
    using cos_le_one [of "y + x"] cos_ge_minus_one [of "y + x"] unfolding ca by simp_all
  define r where "r = p * t"
  have lo: "0 \<le> (1 - (p + q)) / 2 + p * t" and hi: "(1 - (p + q)) / 2 + p * t \<le> 1"
    unfolding r_def [symmetric]
  proof -
    show "0 \<le> (1 - (p + q)) / 2 + r"
    proof (cases "0 \<le> p")
      case True
      then have "0 \<le> r" using t by (simp add: r_def)
      then show ?thesis using b1 by (simp add: field_simps)
    next
      case False
      then have "p * 1 \<le> r" using t unfolding r_def by (intro mult_left_mono_neg) simp_all
      then show ?thesis using b2 by (simp add: field_simps)
    qed
    show "(1 - (p + q)) / 2 + r \<le> 1"
    proof (cases "0 \<le> p")
      case True
      then have "r \<le> p * 1" using t unfolding r_def by (intro mult_left_mono) simp_all
      then show ?thesis using b2 by (simp add: field_simps)
    next
      case False
      then have "r \<le> 0" using t by (simp add: r_def mult_nonpos_nonneg)
      then show ?thesis using b1 by (simp add: field_simps)
    qed
  qed
  show "0 \<le> (sin ((y - x) / 2))\<^sup>2 + cos x * cos y * t"
    unfolding s p_def [symmetric] by (rule lo)
  show "(sin ((y - x) / 2))\<^sup>2 + cos x * cos y * t \<le> 1"
    unfolding s p_def [symmetric] by (rule hi)
qed

lemma hav_a_bounds: "0 \<le> hav_a lat1 lon1 lat2 lon2" "hav_a lat1 lon1 lat2 lon2 \<le> 1"
proof -
  have t: "0 \<le> (sin (radians (lon2 - lon1) / 2))\<^sup>2" "(sin (radians (lon2 - lon1) / 2))\<^sup>2 \<le> 1"
    by (simp_all add: abs_square_le_1 abs_sin_le_one)
  show "0 \<le> hav_a lat1 lon1 lat2 lon2"
    unfolding hav_a_def radians_diff [of lat2 lat1] by (rule hav_core_bounds(1) [OF t])
  show "hav_a lat1 lon1 lat2 lon2 \<le> 1"
    unfolding hav_a_def radians_diff [of lat2 lat1] by (rule hav_core_bounds(2) [OF t])
qed

lemma haversine_eq:
  "haversine lat1 lon1 lat2 lon2 =
     Inr (3958.8 * (2 * atan2 (sqrt (hav_a lat1 lon1 lat2 lon2)) (sqrt (1 - hav_a lat1 lon1 lat2 lon2))))"
  using hav_a_bounds [of lat1 lon1 lat2 lon2]
  by (simp add: haversine_def py_sqrt_def hav_a_def Let_def)

lemma atan2_nonneg: "0 \<le> y \<Longrightarrow> 0 \<le> x \<Longrightarrow> 0 \<le> atan2 y x"
  by (simp add: atan2_def)

lemma hav_a_sym: "hav_a lat1 lon1 lat2 lon2 = hav_a lat2 lon2 lat1 lon1"
proof -
  have m: "radians (b - a) / 2 = - (radians (a - b) / 2)" for a b
    by (simp add: radians_diff diff_divide_distrib)
  show ?thesis
    unfolding hav_a_def m [of lat1 lat2] m [of lon1 lon2] sin_minus power2_minus
    by (simp add: mult.commute)
qed


lemma haversine_Inr_nonneg: "\<exists>d. haversine lat1 lon1 lat2 lon2 = Inr d \<and> 0 \<le> d"
proof -
  have "0 \<le> atan2 (sqrt (hav_a lat1 lon1 lat2 lon2)) (sqrt (1 - hav_a lat1 lon1 lat2 lon2))"
    using hav_a_bounds [of lat1 lon1 lat2 lon2] by (intro atan2_nonneg) simp_all
  then have "0 \<le> 3958.8 * (2 * atan2 (sqrt (hav_a lat1 lon1 lat2 lon2)) (sqrt (1 - hav_a lat1 lon1 lat2 lon2)))"
    by simp
  then show ?thesis
    unfolding haversine_eq by (intro exI conjI) (rule refl)
qed

text \<open>
  A store at most 0.010 degrees of latitude and 0.012 degrees of longitude away is nearer
  than 5 miles: \<open>a\<close> is at most \<open>4 / 10 ^ 8\<close>, and \<open>arctan x \<le> x\<close> from 0 on.
\<close>

lemma arctan_le_self:
  fixes x :: real
  assumes "0 \<le> x"
  shows "arctan x \<le> x"
proof -
  have "\<exists>y. DERIV (\<lambda>t. t - arctan t) t :> y \<and> 0 \<le> y" for t :: real
  proof -
    have "DERIV (\<lambda>t. t - arctan t) t :> 1 - inverse (1 + t\<^sup>2)"
      by (auto intro!: derivative_eq_intros)
    moreover have "inverse (1 + t\<^sup>2) \<le> 1"
      by (simp add: inverse_le_1_iff)
    ultimately show ?thesis by (intro exI [of _ "1 - inverse (1 + t\<^sup>2)"]) simp
  qed
  then have "(\<lambda>t. t - arctan t) 0 \<le> (\<lambda>t. t - arctan t) x"
    by (intro DERIV_nonneg_imp_nondecreasing [OF assms]) blast
  then show ?thesis by simp
qed

lemma half_radians_sq:
  fixes d b :: real
  assumes "\<bar>d\<bar> \<le> b"
  shows "(sin (radians d / 2))\<^sup>2 \<le> b\<^sup>2 * (16 / 129600)"
proof -
  have "(sin (radians d / 2))\<^sup>2 \<le> (radians d / 2)\<^sup>2"
    using abs_sin_x_le_abs_x [of "radians d / 2"] by (simp only: abs_le_square_iff)
  also have "(radians d / 2)\<^sup>2 = d\<^sup>2 * (pi\<^sup>2 / 129600)"
    by (simp add: radians_def power2_eq_square)
  also have "\<dots> \<le> b\<^sup>2 * (16 / 129600)"
  proof (rule mult_mono)
    show "d\<^sup>2 \<le> b\<^sup>2" using assms by (simp add: abs_le_square_iff [symmetric])
    have "pi\<^sup>2 \<le> 4\<^sup>2" using pi_less_4 pi_ge_zero by (intro power_mono) simp_all
    then show "pi\<^sup>2 / 129600 \<le> 16 / 129600" by simp
  qed simp_all
  finally show ?thesis .
qed

lemma hav_a_small:
  assumes "\<bar>dlat\<bar> \<le> 1 / 100" and "\<bar>dlng\<bar> \<le> 3 / 250"
  shows "hav_a la lo (la + dlat) (lo + dlng) \<le> 4 / 10 ^ 8"
proof -
  let ?s = "(sin (radians dlng / 2))\<^sup>2"
  have 1: "(sin (radians dlat / 2))\<^sup>2 \<le> (1 / 100)\<^sup>2 * (16 / 129600)"
    by (rule half_radians_sq [OF assms(1)])
  have 2: "?s \<le> (3 / 250)\<^sup>2 * (16 / 129600)"
    by (rule half_radians_sq [OF assms(2)])
  have "\<bar>cos (radians la) * cos (radians (la + dlat))\<bar> \<le> 1 * 1"
    unfolding abs_mult by (intro mult_mono) simp_all
  then have "cos (radians la) * cos (radians (la + dlat)) \<le> 1" by simp
  then have 3: "cos (radians la) * cos (radians (la + dlat)) * ?s \<le> 1 * ?s"
    by (intro mult_right_mono) simp_all
  have "hav_a la lo (la + dlat) (lo + dlng)
          = (sin (radians dlat / 2))\<^sup>2 + cos (radians la) * cos (radians (la + dlat)) * ?s"
    by (simp add: hav_a_def)
  also have "\<dots> \<le> (1 / 100)\<^sup>2 * (16 / 129600) + (3 / 250)\<^sup>2 * (16 / 129600)"
    using 1 2 3 by linarith
  also have "\<dots> \<le> 4 / 10 ^ 8" by (simp add: power2_eq_square)
  finally show ?thesis .
qed

lemma haversine_near:
  assumes "\<bar>dlat\<bar> \<le> 1 / 100" and "\<bar>dlng\<bar> \<le> 3 / 250"
  shows "\<exists>d. haversine la lo (la + dlat) (lo + dlng) = Inr d \<and> d < 5"
proof -
  let ?a = "hav_a la lo (la + dlat) (lo + dlng)"
  have a: "0 \<le> ?a" "?a \<le> 4 / 10 ^ 8"
    using hav_a_bounds(1) hav_a_small [OF assms] by simp_all
  have sa: "sqrt ?a \<le> 2 / 10 ^ 4"
    using a(2) by (intro real_le_lsqrt) (simp_all add: power2_eq_square)
  have sb: "1 / 2 \<le> sqrt (1 - ?a)"
    using a(2) by (intro real_le_rsqrt) (simp add: power2_eq_square)
  have q: "sqrt ?a / sqrt (1 - ?a) \<le> (2 / 10 ^ 4) / (1 / 2)"
    using sa sb a(1) by (intro frac_le) simp_all
  have pos: "0 < sqrt (1 - ?a)"
    using sb by linarith
  have "atan2 (sqrt ?a) (sqrt (1 - ?a)) = arctan (sqrt ?a / sqrt (1 - ?a))"
    unfolding atan2_def using pos by (simp only: if_True)
  also have "\<dots> \<le> sqrt ?a / sqrt (1 - ?a)"
    using a(1) pos by (intro arctan_le_self divide_nonneg_pos) simp_all
  finally have "atan2 (sqrt ?a) (sqrt (1 - ?a)) \<le> (2 / 10 ^ 4) / (1 / 2)"
    using q by linarith
  then have "3958.8 * (2 * atan2 (sqrt ?a) (sqrt (1 - ?a))) < 5"
    by simp
  then show ?thesis
    unfolding haversine_eq by (intro exI conjI) (rule refl)
qed

section \<open>The loop over the chains in closed form\<close>

text \<open>
  \<open>projr (candidate p co)\<close> is the triple \<open>(store_lat, store_lng, dist)\<close> of the
  iteration for \<open>co\<close>, which never raises. The only exception of the loop is the
  \<open>OverflowError\<close> of line 117; when none is raised the loop returns the results of the
  stores it does not skip, in the order of \<open>zip(BASE_CHAINS, offsets)\<close>.
\<close>

lemma candidate_Inr:
  "\<exists>d. candidate p (ch, dlat, dlng) = Inr (lat p + dlat, lng p + dlng, d)
        \<and> haversine (lat p) (lng p) (lat p + dlat) (lng p + dlng) = Inr d \<and> 0 \<le> d"
proof -
  obtain d where "haversine (lat p) (lng p) (lat p + dlat) (lng p + dlng) = Inr d" "0 \<le> d"
    using haversine_Inr_nonneg by blast
  then show ?thesis by (simp add: Let_def)
qed

lemma candidate_projr:
  "candidate p co = Inr (projr (candidate p co))" "0 \<le> snd (snd (projr (candidate p co)))"
proof -
  obtain ch dlat dlng where co: "co = (ch, dlat, dlng)" by (cases co) auto
  obtain d where "candidate p co = Inr (lat p + dlat, lng p + dlng, d)" "0 \<le> d"
    using candidate_Inr [of p ch dlat dlng] unfolding co by blast
  then show "candidate p co = Inr (projr (candidate p co))" "0 \<le> snd (snd (projr (candidate p co)))"
    by simp_all
qed

lemma py_int_Inl: "py_int x = Inl e \<Longrightarrow> e = OverflowError"
  by (simp add: py_int_def split: if_splits)

lemma store_id_Inl: "store_id ch c = Inl e \<Longrightarrow> e = OverflowError"
  by (cases c) (auto split: sum.splits dest: py_int_Inl)

lemma chain_loop_ok:
  assumes "\<forall>co \<in> set cs. \<not> outside_radius (radiusMiles p) (snd (snd (projr (candidate p co))))
             \<longrightarrow> (\<exists>sid. store_id (fst co) (projr (candidate p co)) = Inr sid)"
  shows "chain_loop h p its cs acc =
     Inr (acc @ map (\<lambda>co. store_result h its (fst co) (projr (candidate p co))
                            (projr (store_id (fst co) (projr (candidate p co)))))
                  (filter (\<lambda>co. \<not> outside_radius (radiusMiles p) (snd (snd (projr (candidate p co))))) cs))"
  using assms
proof (induction cs arbitrary: acc)
  case Nil
  show ?case by simp
next
  case (Cons co cs)
  obtain c where c: "candidate p co = Inr c"
    using candidate_projr(1) by blast
  show ?case
  proof (cases "outside_radius (radiusMiles p) (snd (snd c))")
    case True
    then show ?thesis using Cons by (simp add: c)
  next
    case False
    then obtain sid where "store_id (fst co) c = Inr sid"
      using Cons.prems by (auto simp: c)
    then show ?thesis using False Cons by (simp add: c)
  qed
qed

lemma chain_loop_Inr:
  assumes "chain_loop h p its cs acc = Inr ss"
  shows "ss = acc @ map (\<lambda>co. store_result h its (fst co) (projr (candidate p co))
                            (projr (store_id (fst co) (projr (candidate p co)))))
                  (filter (\<lambda>co. \<not> outside_radius (radiusMiles p) (snd (snd (projr (candidate p co))))) cs)"
  using assms
proof (induction cs arbitrary: acc)
  case Nil
  then show ?case by simp
next
  case (Cons co cs)
  obtain c where c: "candidate p co = Inr c"
    using candidate_projr(1) by blast
  show ?case
  proof (cases "outside_radius (radiusMiles p) (snd (snd c))")
    case True
    then show ?thesis using Cons by (simp add: c)
  next
    case False
    show ?thesis
    proof (cases "store_id (fst co) c")
      case (Inl e)
      then show ?thesis using False Cons.prems by (simp add: c)
    next
      case (Inr sid)
      then have "chain_loop h p its cs (acc @ [store_result h its (fst co) c sid]) = Inr ss"
        using False Cons.prems by (simp add: c)
      from Cons.IH [OF this] show ?thesis
        using False Inr by (simp add: c)
    qed
  qed
qed

lemma enrich_eq:
  "enrich h cid its (en, tot) =
     (en @ map (\<lambda>nm. \<lparr>name = nm, price = item_price h nm cid, quantity = 1\<rparr>) its,
      tot + sum_list (map (\<lambda>nm. item_price h nm cid) its))"
  by (induction its arbitrary: en tot) (simp_all add: Let_def)

lemma store_result_simps:
  "storeId (store_result h its ch c sid) = sid"
  "storeName (store_result h its ch c sid) = chain_name ch"
  "distanceMiles (store_result h its ch c sid) = py_round (snd (snd c)) 2"
  "store_lat (store_result h its ch c sid) = py_round (fst c) 6"
  "store_lng (store_result h its ch c sid) = py_round (fst (snd c)) 6"
  "items (store_result h its ch c sid) = map (\<lambda>nm. \<lparr>name = nm, price = item_price h nm (chain_id ch), quantity = 1\<rparr>) its"
  "totalPrice (store_result h its ch c sid) = py_round (sum_list (map (\<lambda>nm. item_price h nm (chain_id ch)) its)) 2"
  by (cases c; simp add: enrich_eq)+

lemma search_stores_Inr:
  assumes "search_stores h p = Inr resp"
  shows "parse_items (query p) \<noteq> []"
    and "resp_query resp = query p" and "mode resp = lit ''live''"
    and "totalStores resp =
           length (filter (\<lambda>co. \<not> outside_radius (radiusMiles p) (snd (snd (projr (candidate p co)))))
                     (zip BASE_CHAINS offsets))"
    and "stores resp =
           sort_stores (map (\<lambda>co. store_result h (parse_items (query p)) (fst co) (projr (candidate p co))
                                    (projr (store_id (fst co) (projr (candidate p co)))))
             (filter (\<lambda>co. \<not> outside_radius (radiusMiles p) (snd (snd (projr (candidate p co)))))
                (zip BASE_CHAINS offsets)))"
    and "chain_loop h p (parse_items (query p)) (zip BASE_CHAINS offsets) []
           = Inr (map (\<lambda>co. store_result h (parse_items (query p)) (fst co) (projr (candidate p co))
                                    (projr (store_id (fst co) (projr (candidate p co)))))
             (filter (\<lambda>co. \<not> outside_radius (radiusMiles p) (snd (snd (projr (candidate p co)))))
                (zip BASE_CHAINS offsets)))"
proof -
  show ne: "parse_items (query p) \<noteq> []"
    using assms by (auto simp: search_stores_def Let_def)
  obtain ss where ss: "chain_loop h p (parse_items (query p)) (zip BASE_CHAINS offsets) [] = Inr ss"
    and resp: "resp = \<lparr>resp_query = query p, mode = lit ''live'',
                        totalStores = length (sort_stores ss), stores = sort_stores ss\<rparr>"
    using assms ne by (auto simp: search_stores_def Let_def split: sum.splits)
  note eq = chain_loop_Inr [OF ss, simplified]
  show "resp_query resp = query p" "mode resp = lit ''live''"
    by (simp_all add: resp)
  show "totalStores resp =
           length (filter (\<lambda>co. \<not> outside_radius (radiusMiles p) (snd (snd (projr (candidate p co)))))
                     (zip BASE_CHAINS offsets))"
    by (simp add: resp sort_stores_def eq)
  show "stores resp =
           sort_stores (map (\<lambda>co. store_result h (parse_items (query p)) (fst co) (projr (candidate p co))
                                    (projr (store_id (fst co) (projr (candidate p co)))))
             (filter (\<lambda>co. \<not> outside_radius (radiusMiles p) (snd (snd (projr (candidate p co)))))
                (zip BASE_CHAINS offsets)))"
    by (simp add: resp eq)
  show "chain_loop h p (parse_items (query p)) (zip BASE_CHAINS offsets) []
           = Inr (map (\<lambda>co. store_result h (parse_items (query p)) (fst co) (projr (candidate p co))
                                    (projr (store_id (fst co) (projr (candidate p co)))))
             (filter (\<lambda>co. \<not> outside_radius (radiusMiles p) (snd (snd (projr (candidate p co)))))
                (zip BASE_CHAINS offsets)))"
    using ss eq by simp
qed

lemma chain_loop_Inl: "chain_loop h p its cs acc = Inl e \<Longrightarrow> e = OverflowError"
proof (induction cs arbitrary: acc)
  case Nil
  then show ?case by simp
next
  case (Cons co cs)
  obtain c where c: "candidate p co = Inr c"
    using candidate_projr(1) by blast
  show ?case
  proof (cases "outside_radius (radiusMiles p) (snd (snd c))")
    case True
    then show ?thesis using Cons by (simp add: c)
  next
    case False
    show ?thesis
    proof (cases "store_id (fst co) c")
      case (Inl e')
      then show ?thesis using False Cons.prems store_id_Inl [OF Inl] by (simp add: c)
    next
      case (Inr sid)
      then have "chain_loop h p its cs (acc @ [store_result h its (fst co) c sid]) = Inl e"
        using False Cons.prems by (simp add: c)
      then show ?thesis by (rule Cons.IH)
    qed
  qed
qed

lemma parse_items_Nil_iff:
  "parse_items q = [] \<longleftrightarrow> (\<forall>part \<in> set (split 44 q). strip part = [])"
  by (induction "split 44 q") (auto simp: parse_items_def)

text \<open>The error of line 85 is raised exactly on the queries without a non-empty part.\<close>

lemma validation_error_iff:
  "search_stores h p = Inl (HTTPException 400 (lit ''Please provide at least one item in the query.''))
     \<longleftrightarrow> (\<forall>part \<in> set (split 44 (query p)). strip part = [])"
proof (cases "parse_items (query p) = []")
  case True
  then show ?thesis
    using parse_items_Nil_iff [of "query p"] by (simp add: search_stores_def Let_def)
next
  case False
  have "search_stores h p \<noteq> Inl (HTTPException 400 (lit ''Please provide at least one item in the query.''))"
  proof (cases "chain_loop h p (parse_items (query p)) (zip BASE_CHAINS offsets) []")
    case (Inl e)
    then have "e = OverflowError" by (rule chain_loop_Inl)
    then show ?thesis using False Inl by (simp add: search_stores_def Let_def)
  next
    case (Inr ss)
    then show ?thesis using False by (simp add: search_stores_def Let_def)
  qed
  then show ?thesis
    using False parse_items_Nil_iff [of "query p"] by simp
qed

lemma zip_chains:
  "zip BASE_CHAINS offsets =
     [(\<lparr>chain_id = lit ''walmart'', chain_name = lit ''Walmart Supercenter''\<rparr>, 0.010, 0.012),
      (\<lparr>chain_id = lit ''target'', chain_name = lit ''Target''\<rparr>, - 0.008, 0.009),
      (\<lparr>chain_id = lit ''kroger'', chain_name = lit ''Kroger''\<rparr>, 0.006, - 0.010)]"
  by (simp add: BASE_CHAINS_def offsets_def)

text \<open>The order of the sort keys, which are pairs, written out on the two fields.\<close>

lemma sorted_key_pairs:
  "sorted (map (\<lambda>s. (totalPrice s, distanceMiles s)) xs) \<longleftrightarrow>
   sorted_wrt (\<lambda>s t. totalPrice s < totalPrice t
                  \<or> (totalPrice s = totalPrice t \<and> distanceMiles s \<le> distanceMiles t)) xs"
  by (induction xs) (auto simp: less_eq_prod_def)

lemma outside_radius_iff:
  "outside_radius r d \<longleftrightarrow> (\<exists>rv. r = Some rv \<and> rv \<noteq> 0 \<and> rv < d)"
  by (simp add: outside_radius_def split: option.splits)

lemma chain_names_distinct:
  assumes "co \<in> set (zip BASE_CHAINS offsets)" and "co' \<in> set (zip BASE_CHAINS offsets)"
    and "chain_name (fst co) = chain_name (fst co')"
  shows "co = co'"
  using assms unfolding zip_chains by (auto simp: lit_def)

lemma candidate_near:
  assumes "co \<in> set (zip BASE_CHAINS offsets)"
  shows "snd (snd (projr (candidate p co))) < 5"
proof -
  obtain ch dlat dlng where co: "co = (ch, dlat, dlng)"
    by (cases co) auto
  have b: "\<bar>dlat\<bar> \<le> 1 / 100" "\<bar>dlng\<bar> \<le> 3 / 250"
    using assms unfolding co zip_chains by auto
  obtain d where "haversine (lat p) (lng p) (lat p + dlat) (lng p + dlng) = Inr d" "d < 5"
    using haversine_near [OF b] by blast
  then show ?thesis
    unfolding co by (simp add: Let_def)
qed

subsection \<open>The ranges of the two price components\<close>

lemma base_price_range: "\<exists>k::nat. 1 \<le> k \<and> k \<le> 7 \<and> base_price nm = of_nat k"
proof -
  have "length nm mod 7 < 7" by simp
  then have "1 \<le> length nm mod 7 + 1 \<and> length nm mod 7 + 1 \<le> 7
      \<and> base_price nm = of_nat (length nm mod 7 + 1)"
    by (simp add: base_price_def max_def)
  then show ?thesis by blast
qed

lemma jitter_range: "0 \<le> jitter h nm cid \<and> jitter h nm cid \<le> 0.396"
proof -
  have "0 \<le> h (nm @ cid) mod 100" "h (nm @ cid) mod 100 \<le> 99"
    using pos_mod_bound [of 100 "h (nm @ cid)"] by simp_all
  then have "(0::real) \<le> of_int (h (nm @ cid) mod 100)" "(of_int (h (nm @ cid) mod 100) :: real) \<le> 99"
    by simp_all
  then show ?thesis
    by (simp add: jitter_def)
qed
subsection \<open>Requests on which line 117 does not overflow\<close>

lemma py_int_in_range:
  assumes "\<bar>x\<bar> \<le> 10 ^ 300 + 1"
  shows "\<exists>i. py_int (x * 1000) = Inr i"
proof -
  have "\<bar>x * 1000\<bar> \<le> (10 ^ 300 + 1) * 1000"
    using assms by (simp add: abs_mult)
  also have "\<dots> < (2 ^ 1024 - 2 ^ 970 :: real)"
    by simp
  finally show ?thesis
    by (simp add: py_int_def)
qed

lemma search_stores_in_range:
  assumes "parse_items (query p) \<noteq> []" and "\<bar>lat p\<bar> \<le> 10 ^ 300" and "\<bar>lng p\<bar> \<le> 10 ^ 300"
  shows "\<exists>resp. search_stores h p = Inr resp"
proof -
  have "\<exists>sid. store_id (fst co) (projr (candidate p co)) = Inr sid"
    if "co \<in> set (zip BASE_CHAINS offsets)" for co
  proof -
    obtain ch dlat dlng where co: "co = (ch, dlat, dlng)"
      by (cases co) auto
    have b: "\<bar>dlat\<bar> \<le> 1" "\<bar>dlng\<bar> \<le> 1"
      using that unfolding co zip_chains by auto
    obtain d where c: "candidate p co = Inr (lat p + dlat, lng p + dlng, d)"
      using candidate_Inr [of p ch dlat dlng] unfolding co by blast
    obtain i where i: "py_int ((lat p + dlat) * 1000) = Inr i"
      using py_int_in_range [of "lat p + dlat"] assms(2) b(1) by fastforce
    obtain j where j: "py_int ((lng p + dlng) * 1000) = Inr j"
      using py_int_in_range [of "lng p + dlng"] assms(3) b(2) by fastforce
    have "store_id ch (lat p + dlat, lng p + dlng, d)
            = Inr (chain_id ch @ lit ''-'' @ str_int \<bar>i\<bar> @ lit ''-'' @ str_int \<bar>j\<bar>)"
      by (simp only: store_id.simps i j sum.case)
    moreover have "projr (candidate p co) = (lat p + dlat, lng p + dlng, d)" "fst co = ch"
      by (simp_all only: c sum.sel) (simp add: co)
    ultimately show ?thesis
      by (intro exI) (simp only:)
  qed
  then have "chain_loop h p (parse_items (query p)) (zip BASE_CHAINS offsets) [] =
     Inr ([] @ map (\<lambda>co. store_result h (parse_items (query p)) (fst co) (projr (candidate p co))
                            (projr (store_id (fst co) (projr (candidate p co)))))
                  (filter (\<lambda>co. \<not> outside_radius (radiusMiles p) (snd (snd (projr (candidate p co)))))
                     (zip BASE_CHAINS offsets)))"
    by (intro chain_loop_ok) blast
  then show ?thesis
    using assms(1) by (simp add: search_stores_def Let_def)
qed

subsection \<open>A concrete query\<close>

lemma parse_eggs: "parse_items (lit ''eggs, milk'') = [lit ''eggs'', lit ''milk'']"
  by (simp add: parse_items_def lit_def strip_def isspace_def)

subsection \<open>A request on which line 117 overflows\<close>

text \<open>
  With the default radius the first store is kept, so when the thousandfold of its latitude
  is out of the range of the doubles the loop ends in the \<open>OverflowError\<close> of \<open>int\<close>.
\<close>

lemma parse_one_item: "parse_items (lit ''eggs'') = [lit ''eggs'']"
  by (simp add: parse_items_def lit_def strip_def isspace_def)

lemma chain_loop_raises_first:
  assumes "candidate p co = Inr c" and "\<not> outside_radius (radiusMiles p) (snd (snd c))"
    and "store_id (fst co) c = Inl e"
  shows "chain_loop h p its (co # rest) acc = Inl e"
  using assms by simp

lemma search_stores_overflow:
  assumes "parse_items (query p) \<noteq> []" and "radiusMiles p = default_radiusMiles"
    and "2 ^ 1024 - 2 ^ 970 \<le> \<bar>(lat p + 0.010) * 1000\<bar>"
  shows "search_stores h p = Inl OverflowError"
proof -
  let ?w = "\<lparr>chain_id = lit ''walmart'', chain_name = lit ''Walmart Supercenter''\<rparr>"
  let ?co = "(?w, 0.010 :: real, 0.012 :: real)"
  obtain rest where z: "zip BASE_CHAINS offsets = ?co # rest"
    by (simp add: zip_chains)
  obtain d where c: "candidate p ?co = Inr (lat p + 0.010, lng p + 0.012, d)"
    using candidate_Inr [of p ?w "0.010" "0.012"] by blast
  have "?co \<in> set (zip BASE_CHAINS offsets)"
    by (simp add: z)
  from candidate_near [OF this, of p] have d: "d < 5"
    by (simp only: c sum.sel snd_conv)
  have out: "\<not> outside_radius (radiusMiles p) (snd (snd (lat p + 0.010, lng p + 0.012, d)))"
    using d by (simp add: outside_radius_def default_radiusMiles_def assms(2))
  have "py_int ((lat p + 0.010) * 1000) = Inl OverflowError"
    unfolding py_int_def using assms(3) by (simp only: if_True)
  then have sid: "store_id (fst ?co) (lat p + 0.010, lng p + 0.012, d) = Inl OverflowError"
    by (simp only: store_id.simps sum.case)
  have "chain_loop h p (parse_items (query p)) (zip BASE_CHAINS offsets) [] = Inl OverflowError"
    unfolding z by (rule chain_loop_raises_first [OF c out sid])
  then show ?thesis
    using assms(1) by (simp add: search_stores_def Let_def)
qed

section \<open>The claims\<close>

text \<open>
  Claim C1. In every response, for every chain the store of the chain is absent from
  \<open>stores\<close> (no store of that name, and no result built for it) exactly when
  \<open>radiusMiles\<close> is a non-zero number below the store's distance; \<open>totalStores\<close> counts
  the stores that are not skipped. With \<open>radiusMiles\<close> \<open>None\<close> or 0 no store is skipped.
  A request that leaves the field out carries the default 5.0, and no store is skipped then
  either, since each is nearer than 5 miles.
\<close>

theorem radius_filter:
  assumes "search_stores h p = Inr resp"
  shows "(\<forall>co \<in> set (zip BASE_CHAINS offsets). \<exists>c. candidate p co = Inr c
          \<and> ((\<forall>s \<in> set (stores resp). storeName s \<noteq> chain_name (fst co))
                \<longleftrightarrow> (\<exists>r. radiusMiles p = Some r \<and> r \<noteq> 0 \<and> r < snd (snd c)))
          \<and> ((\<forall>sid. store_result h (parse_items (query p)) (fst co) c sid \<notin> set (stores resp))
                \<longleftrightarrow> (\<exists>r. radiusMiles p = Some r \<and> r \<noteq> 0 \<and> r < snd (snd c))))
    \<and> totalStores resp
         = length (filter (\<lambda>co. \<exists>c. candidate p co = Inr c
                              \<and> \<not> (\<exists>r. radiusMiles p = Some r \<and> r \<noteq> 0 \<and> r < snd (snd c)))
                     (zip BASE_CHAINS offsets))
    \<and> (radiusMiles p = None \<or> radiusMiles p = Some 0 \<longrightarrow> totalStores resp = length BASE_CHAINS)
    \<and> (radiusMiles p = default_radiusMiles \<longrightarrow> totalStores resp = length BASE_CHAINS)"
proof -
  let ?Z = "zip BASE_CHAINS offsets"
  let ?c = "\<lambda>co. projr (candidate p co)"
  let ?out = "\<lambda>co. outside_radius (radiusMiles p) (snd (snd (?c co)))"
  let ?build = "\<lambda>co. store_result h (parse_items (query p)) (fst co) (?c co)
                        (projr (store_id (fst co) (?c co)))"
  have S: "set (stores resp) = ?build ` {co \<in> set ?Z. \<not> ?out co}"
    unfolding search_stores_Inr(5) [OF assms] sort_stores_def by simp
  note T = search_stores_Inr(4) [OF assms]
  have name: "storeName (store_result h its ch c sid) = chain_name ch" for its ch c sid
    by (simp add: store_result_simps)
  have A: "(\<forall>s \<in> set (stores resp). storeName s \<noteq> chain_name (fst co)) \<longleftrightarrow> ?out co"
    if co: "co \<in> set ?Z" for co
  proof
    assume a: "\<forall>s \<in> set (stores resp). storeName s \<noteq> chain_name (fst co)"
    show "?out co"
    proof (rule ccontr)
      assume "\<not> ?out co"
      then have "?build co \<in> set (stores resp)" unfolding S using co by blast
      with a name show False by blast
    qed
  next
    assume o: "?out co"
    show "\<forall>s \<in> set (stores resp). storeName s \<noteq> chain_name (fst co)"
    proof
      fix s assume "s \<in> set (stores resp)"
      then obtain co' where c': "co' \<in> set ?Z" "\<not> ?out co'" "s = ?build co'"
        unfolding S by blast
      show "storeName s \<noteq> chain_name (fst co)"
      proof
        assume "storeName s = chain_name (fst co)"
        then have "chain_name (fst co') = chain_name (fst co)"
          using c'(3) name by simp
        then have "co' = co" using chain_names_distinct [OF c'(1) co] by simp
        with o c'(2) show False by simp
      qed
    qed
  qed
  have B: "(\<forall>sid. store_result h (parse_items (query p)) (fst co) (?c co) sid \<notin> set (stores resp))
             \<longleftrightarrow> ?out co" if co: "co \<in> set ?Z" for co
  proof
    assume a: "\<forall>sid. store_result h (parse_items (query p)) (fst co) (?c co) sid \<notin> set (stores resp)"
    show "?out co"
    proof (rule ccontr)
      assume "\<not> ?out co"
      then have "?build co \<in> set (stores resp)" unfolding S using co by blast
      with a show False by blast
    qed
  next
    assume o: "?out co"
    then have "\<forall>s \<in> set (stores resp). storeName s \<noteq> chain_name (fst co)"
      using A [OF co] by simp
    then show "\<forall>sid. store_result h (parse_items (query p)) (fst co) (?c co) sid \<notin> set (stores resp)"
      using name by blast
  qed
  have 1: "\<forall>co \<in> set ?Z. \<exists>c. candidate p co = Inr c
          \<and> ((\<forall>s \<in> set (stores resp). storeName s \<noteq> chain_name (fst co))
                \<longleftrightarrow> (\<exists>r. radiusMiles p = Some r \<and> r \<noteq> 0 \<and> r < snd (snd c)))
          \<and> ((\<forall>sid. store_result h (parse_items (query p)) (fst co) c sid \<notin> set (stores resp))
                \<longleftrightarrow> (\<exists>r. radiusMiles p = Some r \<and> r \<noteq> 0 \<and> r < snd (snd c)))"
  proof
    fix co assume co: "co \<in> set ?Z"
    show "\<exists>c. candidate p co = Inr c
          \<and> ((\<forall>s \<in> set (stores resp). storeName s \<noteq> chain_name (fst co))
                \<longleftrightarrow> (\<exists>r. radiusMiles p = Some r \<and> r \<noteq> 0 \<and> r < snd (snd c)))
          \<and> ((\<forall>sid. store_result h (parse_items (query p)) (fst co) c sid \<notin> set (stores resp))
                \<longleftrightarrow> (\<exists>r. radiusMiles p = Some r \<and> r \<noteq> 0 \<and> r < snd (snd c)))"
      using candidate_projr(1) [of p co] A [OF co] B [OF co]
      unfolding outside_radius_iff by (intro exI [of _ "?c co"] conjI)
  qed
  have keep: "(\<exists>c. candidate p co = Inr c
                 \<and> \<not> (\<exists>r. radiusMiles p = Some r \<and> r \<noteq> 0 \<and> r < snd (snd c))) \<longleftrightarrow> \<not> ?out co" for co
  proof -
    obtain c where c: "candidate p co = Inr c" using candidate_projr(1) by blast
    show ?thesis by (simp add: c outside_radius_iff)
  qed
  have 2: "totalStores resp
         = length (filter (\<lambda>co. \<exists>c. candidate p co = Inr c
                              \<and> \<not> (\<exists>r. radiusMiles p = Some r \<and> r \<noteq> 0 \<and> r < snd (snd c))) ?Z)"
    unfolding T keep ..
  have 3: "radiusMiles p = None \<or> radiusMiles p = Some 0 \<longrightarrow> totalStores resp = length BASE_CHAINS"
  proof
    assume "radiusMiles p = None \<or> radiusMiles p = Some 0"
    then have "\<not> ?out co" for co by (auto simp: outside_radius_def)
    then show "totalStores resp = length BASE_CHAINS"
      unfolding T by (simp add: BASE_CHAINS_def offsets_def)
  qed
  have 4: "radiusMiles p = default_radiusMiles \<longrightarrow> totalStores resp = length BASE_CHAINS"
  proof
    assume "radiusMiles p = default_radiusMiles"
    then have "\<not> ?out co" if "co \<in> set ?Z" for co
      using candidate_near [OF that, of p] by (simp add: outside_radius_def default_radiusMiles_def)
    then have "filter (\<lambda>co. \<not> ?out co) ?Z = ?Z"
      by (intro filter_True) blast
    then show "totalStores resp = length BASE_CHAINS"
      unfolding T by (simp add: BASE_CHAINS_def offsets_def)
  qed
  from 1 2 3 4 show ?thesis by (intro conjI)
qed

theorem radius_filter_witness:
  "\<exists>resp. search_stores (\<lambda>_. 0) \<lparr>query = lit ''eggs, milk'', lat = 40, lng = - 74, radiusMiles = Some 0\<rparr> = Inr resp
     \<and> totalStores resp = 3"
proof -
  let ?p = "\<lparr>query = lit ''eggs, milk'', lat = 40, lng = - 74, radiusMiles = Some 0\<rparr>"
  have "parse_items (query ?p) \<noteq> []" "\<bar>lat ?p\<bar> \<le> 10 ^ 300" "\<bar>lng ?p\<bar> \<le> 10 ^ 300"
    by (simp_all add: parse_eggs)
  then obtain resp where r: "search_stores (\<lambda>_. 0) ?p = Inr resp"
    using search_stores_in_range by blast
  from radius_filter [OF r]
  have "radiusMiles ?p = None \<or> radiusMiles ?p = Some 0 \<longrightarrow> totalStores resp = length BASE_CHAINS"
    by blast
  then have "totalStores resp = 3"
    by (simp add: BASE_CHAINS_def)
  with r show ?thesis by blast
qed

text \<open>
  Claim C2, on the code. The query \<open>"eggs"\<close> has a non-empty part, yet at the latitude
  \<open>10 ^ 306\<close> (a finite double) the search does not return a response: the first store is
  inside the default radius, the product \<open>store_lat * 1000\<close> on line 117 is infinite, and
  \<open>int\<close> raises \<open>OverflowError\<close>.
\<close>

theorem search_overflow_at_huge_latitude:
  "parse_items (lit ''eggs'') = [lit ''eggs'']
   \<and> search_stores h \<lparr>query = lit ''eggs'', lat = 10 ^ 306, lng = 0, radiusMiles = default_radiusMiles\<rparr>
       = Inl OverflowError"
proof -
  have "search_stores h \<lparr>query = lit ''eggs'', lat = 10 ^ 306, lng = 0, radiusMiles = default_radiusMiles\<rparr>
       = Inl OverflowError"
    by (rule search_stores_overflow) (simp_all add: parse_one_item)
  then show ?thesis
    using parse_one_item by simp
qed

text \<open>
  Claim C3. The stores of a response are ascending in \<open>totalPrice\<close>, and in
  \<open>distanceMiles\<close> among equal \<open>totalPrice\<close>. The sort is stable: the stores with one
  \<open>(totalPrice, distanceMiles)\<close> appear in the order in which the loop appended them, which
  follows the order of \<open>BASE_CHAINS\<close>.
\<close>

theorem stores_sorted_stable:
  assumes "search_stores h p = Inr resp"
  shows "sorted_wrt (\<lambda>s t. totalPrice s < totalPrice t
                       \<or> (totalPrice s = totalPrice t \<and> distanceMiles s \<le> distanceMiles t)) (stores resp)
    \<and> (\<exists>ss. chain_loop h p (parse_items (query p)) (zip BASE_CHAINS offsets) [] = Inr ss
          \<and> subseq (map storeName ss) (map chain_name BASE_CHAINS)
          \<and> (\<forall>tp dm. filter (\<lambda>s. totalPrice s = tp \<and> distanceMiles s = dm) (stores resp)
                      = filter (\<lambda>s. totalPrice s = tp \<and> distanceMiles s = dm) ss))"
proof -
  let ?keep = "\<lambda>co. \<not> outside_radius (radiusMiles p) (snd (snd (projr (candidate p co))))"
  let ?ss = "map (\<lambda>co. store_result h (parse_items (query p)) (fst co) (projr (candidate p co))
                         (projr (store_id (fst co) (projr (candidate p co)))))
               (filter ?keep (zip BASE_CHAINS offsets))"
  note st = search_stores_Inr(5) [OF assms]
  have 1: "sorted_wrt (\<lambda>s t. totalPrice s < totalPrice t
                       \<or> (totalPrice s = totalPrice t \<and> distanceMiles s \<le> distanceMiles t)) (stores resp)"
    unfolding st sort_stores_def sorted_key_pairs [symmetric] by (rule sorted_sort_key)
  have 2: "chain_loop h p (parse_items (query p)) (zip BASE_CHAINS offsets) [] = Inr ?ss"
    by (rule search_stores_Inr(6) [OF assms])
  have nm: "map storeName ?ss = map chain_name (map fst (filter ?keep (zip BASE_CHAINS offsets)))"
    by (simp add: store_result_simps comp_def)
  have "subseq (map fst (filter ?keep (zip BASE_CHAINS offsets))) (map fst (zip BASE_CHAINS offsets))"
    by (intro subseq_map subseq_filter_left)
  moreover have "map fst (zip BASE_CHAINS offsets) = BASE_CHAINS"
    by (simp add: BASE_CHAINS_def offsets_def)
  ultimately have "subseq (map fst (filter ?keep (zip BASE_CHAINS offsets))) BASE_CHAINS"
    by simp
  then have 3: "subseq (map storeName ?ss) (map chain_name BASE_CHAINS)"
    unfolding nm by (rule subseq_map)
  have 4: "filter (\<lambda>s. totalPrice s = tp \<and> distanceMiles s = dm) (stores resp)
             = filter (\<lambda>s. totalPrice s = tp \<and> distanceMiles s = dm) ?ss" for tp dm
    using sort_key_stable [of "\<lambda>s. (totalPrice s, distanceMiles s)" "(tp, dm)" ?ss]
    unfolding st sort_stores_def by simp
  from 2 3 4 have "\<exists>ss. chain_loop h p (parse_items (query p)) (zip BASE_CHAINS offsets) [] = Inr ss
          \<and> subseq (map storeName ss) (map chain_name BASE_CHAINS)
          \<and> (\<forall>tp dm. filter (\<lambda>s. totalPrice s = tp \<and> distanceMiles s = dm) (stores resp)
                      = filter (\<lambda>s. totalPrice s = tp \<and> distanceMiles s = dm) ss)"
    by (intro exI [of _ ?ss] conjI allI)
  with 1 show ?thesis
    by (rule conjI)
qed

theorem stores_sorted_stable_witness:
  "\<exists>resp. search_stores (\<lambda>_. 0) \<lparr>query = lit ''eggs, milk'', lat = 40, lng = - 74, radiusMiles = Some 5\<rparr> = Inr resp
     \<and> sorted_wrt (\<lambda>s t. totalPrice s < totalPrice t
                       \<or> (totalPrice s = totalPrice t \<and> distanceMiles s \<le> distanceMiles t)) (stores resp)"
proof -
  let ?p = "\<lparr>query = lit ''eggs, milk'', lat = 40, lng = - 74, radiusMiles = Some 5\<rparr>"
  have "parse_items (query ?p) \<noteq> []" "\<bar>lat ?p\<bar> \<le> 10 ^ 300" "\<bar>lng ?p\<bar> \<le> 10 ^ 300"
    by (simp_all add: parse_eggs)
  then obtain resp where r: "search_stores (\<lambda>_. 0) ?p = Inr resp"
    using search_stores_in_range by blast
  show ?thesis
    using stores_sorted_stable [OF r] r by blast
qed

text \<open>
  Claim C4, on the code. The built-in \<open>hash\<close> of a string differs between processes, and
  the price follows it: for the item \<open>"eggs"\<close> at the chain \<open>"walmart"\<close> a process whose
  hash of \<open>"eggswalmart"\<close> is 0 modulo 100 prices 4.95, and one whose hash is 50 modulo 100
  prices 5.15.
\<close>

theorem price_depends_on_hash:
  "item_price (\<lambda>_. 0) (lit ''eggs'') (lit ''walmart'') = 4.95
   \<and> item_price (\<lambda>_. 50) (lit ''eggs'') (lit ''walmart'') = 5.15"
  by (simp add: item_price_def base_price_def jitter_def py_round_def round_half_even_def lit_def Let_def)

text \<open>
  Claim C5, as the code has it. The price of an item is
  \<open>round(base * 0.99 + jitter, 2)\<close>, where \<open>base = max(1.0, len(name) % 7 + 1)\<close> is one of
  the integers 1 to 7 and \<open>jitter = (hash(name + id) % 100) / 250.0\<close> lies in the closed
  interval from 0 to 0.396; every item of every store result carries this price.
\<close>

theorem item_price_formula:
  "item_price h nm cid = py_round (base_price nm * 0.99 + jitter h nm cid) 2
   \<and> base_price nm = max 1.0 (of_nat (length nm mod 7 + 1))
   \<and> (\<exists>k::nat. 1 \<le> k \<and> k \<le> 7 \<and> base_price nm = of_nat k)
   \<and> jitter h nm cid = of_int (h (nm @ cid) mod 100) / 250.0
   \<and> 0 \<le> jitter h nm cid \<and> jitter h nm cid \<le> 0.396
   \<and> map price (items (store_result h its ch c sid)) = map (\<lambda>nm. item_price h nm (chain_id ch)) its"
  using base_price_range [of nm] jitter_range [of h nm cid]
  by (simp add: item_price_def base_price_def jitter_def store_result_simps comp_def)

text \<open>
  Claim C5 as stated fails: the interval is not open at 0.396, which a hash of 99 modulo
  100 reaches.
\<close>

theorem jitter_reaches_bound:
  "\<not> jitter (\<lambda>_. 99) (lit ''eggs'') (lit ''walmart'') < 0.396"
  by (simp add: jitter_def)


text \<open>
  Claim C7. The geo-distance function is symmetric: the distance from \<open>(lat1, lon1)\<close> to
  \<open>(lat2, lon2)\<close> equals the distance from \<open>(lat2, lon2)\<close> to \<open>(lat1, lon1)\<close>. In exact
  arithmetic the two results are equal, not only close.
\<close>

theorem haversine_symmetric:
  "haversine lat1 lon1 lat2 lon2 = haversine lat2 lon2 lat1 lon1"
  unfolding haversine_eq by (simp add: hav_a_sym [of lat1 lon1 lat2 lon2])


text \<open>
  Claim C9. In every response \<open>totalStores\<close> is the length of \<open>stores\<close>, \<open>mode\<close> is
  \<open>"live"\<close> and \<open>query\<close> is the query of the request, unchanged.
\<close>

theorem response_shape:
  assumes "search_stores h p = Inr resp"
  shows "totalStores resp = length (stores resp) \<and> mode resp = lit ''live'' \<and> resp_query resp = query p"
  using search_stores_Inr(2,3,4,5) [OF assms] by (simp add: sort_stores_def)

theorem response_shape_witness:
  "\<exists>resp. search_stores (\<lambda>_. 0) \<lparr>query = lit ''eggs, milk'', lat = 40, lng = - 74, radiusMiles = Some 5\<rparr> = Inr resp
     \<and> totalStores resp = length (stores resp) \<and> mode resp = lit ''live''
     \<and> resp_query resp = lit ''eggs, milk''"
proof -
  let ?p = "\<lparr>query = lit ''eggs, milk'', lat = 40, lng = - 74, radiusMiles = Some 5\<rparr>"
  have "parse_items (query ?p) \<noteq> []" "\<bar>lat ?p\<bar> \<le> 10 ^ 300" "\<bar>lng ?p\<bar> \<le> 10 ^ 300"
    by (simp_all add: parse_eggs)
  then obtain resp where r: "search_stores (\<lambda>_. 0) ?p = Inr resp"
    using search_stores_in_range by blast
  show ?thesis
    using response_shape [OF r] r by simp
qed

text \<open>
  Claim C10. With a radius below zero and a non-empty item list every store is skipped,
  since no distance is negative: the response has no stores and \<open>totalStores = 0\<close>.
\<close>

theorem negative_radius_excludes_all:
  assumes "radiusMiles p = Some r" and "r < 0" and "parse_items (query p) \<noteq> []"
  shows "search_stores h p = Inr \<lparr>resp_query = query p, mode = lit ''live'', totalStores = 0, stores = []\<rparr>"
proof -
  have out: "outside_radius (radiusMiles p) (snd (snd (projr (candidate p co))))" for co
    using candidate_projr(2) [of p co] assms(1,2) by (simp add: outside_radius_def)
  then have "\<forall>co \<in> set (zip BASE_CHAINS offsets).
          \<not> outside_radius (radiusMiles p) (snd (snd (projr (candidate p co))))
          \<longrightarrow> (\<exists>sid. store_id (fst co) (projr (candidate p co)) = Inr sid)"
    by simp
  from chain_loop_ok [OF this, of h "parse_items (query p)" "[]"]
  have "chain_loop h p (parse_items (query p)) (zip BASE_CHAINS offsets) [] = Inr []"
    using out by simp
  then show ?thesis
    using assms(3) by (simp add: search_stores_def Let_def sort_stores_def)
qed

theorem negative_radius_excludes_all_witness:
  "search_stores (\<lambda>_. 0) \<lparr>query = lit ''eggs, milk'', lat = 40, lng = - 74, radiusMiles = Some (- 1)\<rparr>
     = Inr \<lparr>resp_query = lit ''eggs, milk'', mode = lit ''live'', totalStores = 0, stores = []\<rparr>"
  using negative_radius_excludes_all
          [of "\<lparr>query = lit ''eggs, milk'', lat = 40, lng = - 74, radiusMiles = Some (- 1)\<rparr>" "- 1" "\<lambda>_. 0"]
  by (simp add: parse_eggs)

end
